theory Spec2Isabelle
  imports Complex_Main "HOL-Library.Multiset"
begin

section \<open>Generator.py: droop-controlled generators on a single-bus grid\<close>

text \<open>
  Numbers. The program computes with Python and numpy floats. They are modelled as
  \<^typ>\<open>real\<close>: every arithmetic operation is exact, and rounding, infinities and
  NaN are not represented. Where the program divides, the divisor zero is a branch of
  the model:
  \<^item> a division of Python numbers raises \<open>ZeroDivisionError\<close>
    (\<open>freq_dev / self.droop\<close> in the first step, where \<open>freq_dev\<close> is
    \<open>nominal_freq - nominal_freq\<close>, and \<open>g.p_max / total_capacity\<close>);
  \<^item> \<open>np.arange\<close> with step zero and \<open>np.random.normal\<close> with a negative scale
    raise \<open>ValueError\<close>;
  \<^item> a division of a numpy float by zero (the swing equation, whose numerator holds the
    numpy value \<open>demand\<close>) raises nothing: it gives an infinity or NaN and the run goes on.
    The reals have no such value, so the model stops there with \<open>NonFinite\<close>.

  Objects. A \<open>Grid\<close> holds references to its \<open>Generator\<close> objects and mutates them in
  place. The model passes the state explicitly: a grid holds the list of its generators'
  states, and an operation returns the updated state. This is the program as long as
  the generator list holds distinct objects (the same object listed twice would be
  dispatched twice per step).  When an exception is raised the model returns the
  exception only.
\<close>

datatype error = ZeroDivisionError | IndexError | ValueError | NonFinite

subsection \<open>Generator\<close>

record Generator =
  name :: string
  p_max :: real
  inertia :: real
  damping :: real
  droop :: real
  response_rate :: real
  current_output :: real
  p_output :: "real list"

text \<open>\<open>Generator.__init__\<close>: stores its arguments; no check of any of them.\<close>

definition Generator_init ::
  "string \<Rightarrow> real \<Rightarrow> real \<Rightarrow> real \<Rightarrow> real \<Rightarrow> real \<Rightarrow> Generator" where
  "Generator_init n pm h d r k =
     \<lparr>name = n, p_max = pm, inertia = h, damping = d, droop = r, response_rate = k,
      current_output = 0, p_output = []\<rparr>"

text \<open>\<open>np.clip(a, a_min, a_max)\<close> is \<open>minimum(a_max, maximum(a, a_min))\<close>.\<close>

definition clip :: "real \<Rightarrow> real \<Rightarrow> real \<Rightarrow> real" where
  "clip a a_min a_max = min a_max (max a a_min)"

text \<open>
  \<open>Generator.dispatch\<close>. The division is the first thing evaluated, so an exception
  leaves the object as it was. The result is the updated generator and the returned
  value.
\<close>

definition dispatch :: "Generator \<Rightarrow> real \<Rightarrow> real \<Rightarrow> error + (Generator \<times> real)" where
  "dispatch g freq_dev demand_share =
     (if droop g = 0 then Inl ZeroDivisionError
      else
        let setpoint = clip (demand_share - freq_dev / droop g) 0 (p_max g);
            out = current_output g + response_rate g * (setpoint - current_output g)
        in Inr (g\<lparr>current_output := out, p_output := p_output g @ [out]\<rparr>, out))"

text \<open>
  The state of a generator object after a call of \<open>dispatch\<close>, whether the call
  returned or raised, and after a sequence of calls with the given arguments.
\<close>

definition after_dispatch :: "Generator \<Rightarrow> real \<times> real \<Rightarrow> Generator" where
  "after_dispatch g args =
     (case dispatch g (fst args) (snd args) of Inl e \<Rightarrow> g | Inr r \<Rightarrow> fst r)"

definition after_dispatches :: "Generator \<Rightarrow> (real \<times> real) list \<Rightarrow> Generator" where
  "after_dispatches g calls = foldl after_dispatch g calls"


subsection \<open>LoadProfile\<close>

record LoadProfile =
  base_load :: real
  peak_load :: real
  hours :: real
  dt :: real
  noise_std :: real
  time :: "real list"
  profile :: "real list"





subsection \<open>Grid\<close>

record Grid =
  generators :: "Generator list"
  load_profile :: LoadProfile
  nominal_freq :: real
  grid_dt :: real
  grid_damping :: real
  frequency :: "real list"

text \<open>\<open>Grid.__init__\<close>: stores its arguments and seeds the frequency sequence.\<close>

definition Grid_init ::
  "Generator list \<Rightarrow> LoadProfile \<Rightarrow> real \<Rightarrow> real \<Rightarrow> real \<Rightarrow> Grid" where
  "Grid_init gens lp nf step dmp =
     \<lparr>generators = gens, load_profile = lp, nominal_freq = nf, grid_dt = step,
      grid_damping = dmp, frequency = [nf]\<rparr>"

text \<open>
  \<open>sum(g.dispatch(freq_dev, base_shares[i]) for i, g in enumerate(self.generators))\<close>:
  the units are dispatched in list order and the returned values are added to the
  running total, which starts at 0. The result is the updated units and the total.
\<close>

fun dispatch_sum ::
  "real \<Rightarrow> real list \<Rightarrow> (nat \<times> Generator) list \<Rightarrow> real \<Rightarrow> error + (Generator list \<times> real)" where
  "dispatch_sum freq_dev base_shares [] acc = Inr ([], acc)"
| "dispatch_sum freq_dev base_shares ((i, g) # rest) acc =
     (if length base_shares \<le> i then Inl IndexError
      else
        case dispatch g freq_dev (base_shares ! i) of
          Inl e \<Rightarrow> Inl e
        | Inr r \<Rightarrow>
            (case dispatch_sum freq_dev base_shares rest (acc + snd r) of
               Inl e \<Rightarrow> Inl e
             | Inr rs \<Rightarrow> Inr (fst r # fst rs, snd rs)))"

text \<open>
  The body of the loop of \<open>Grid.run_simulation\<close> for one demand sample;
  \<open>total_capacity\<close> is computed before the loop.
\<close>

definition step :: "Grid \<Rightarrow> real \<Rightarrow> real \<Rightarrow> error + Grid" where
  "step G total_capacity demand =
     (if frequency G = [] then Inl IndexError
      else
        let freq = last (frequency G);
            freq_dev = freq - nominal_freq G
        in if generators G \<noteq> [] \<and> total_capacity = 0 then Inl ZeroDivisionError
           else
             let base_shares =
                   map (\<lambda>g. demand * (p_max g / total_capacity)) (generators G)
             in case dispatch_sum freq_dev base_shares (enumerate 0 (generators G)) 0 of
                  Inl e \<Rightarrow> Inl e
                | Inr r \<Rightarrow>
                    let gen_power = snd r;
                        total_inertia = sum_list (map inertia (fst r))
                    in if 2 * total_inertia * nominal_freq G = 0 then Inl NonFinite
                       else
                         let df_dt = (gen_power - demand - grid_damping G * freq_dev)
                                       / (2 * total_inertia * nominal_freq G);
                             new_freq = freq + df_dt * grid_dt G
                         in Inr (G\<lparr>generators := fst r,
                                   frequency := frequency G @ [new_freq]\<rparr>))"

fun run_loop :: "Grid \<Rightarrow> real \<Rightarrow> real list \<Rightarrow> error + Grid" where
  "run_loop G total_capacity [] = Inr G"
| "run_loop G total_capacity (demand # rest) =
     (case step G total_capacity demand of
        Inl e \<Rightarrow> Inl e
      | Inr G' \<Rightarrow> run_loop G' total_capacity rest)"

text \<open>\<open>Grid.run_simulation\<close>.\<close>

definition run_simulation :: "Grid \<Rightarrow> error + Grid" where
  "run_simulation G =
     run_loop G (sum_list (map p_max (generators G))) (profile (load_profile G))"

subsection \<open>Predicates for stating properties of a run\<close>

text \<open>
  A grid on which no step of the loop raises: its frequency sequence is seeded, every
  unit has a droop, and neither the total capacity (when there are units) nor the
  denominator of the swing equation is zero.
\<close>

definition runnable :: "Grid \<Rightarrow> real \<Rightarrow> bool" where
  "runnable G tc \<longleftrightarrow>
     frequency G \<noteq> [] \<and> (generators G = [] \<or> tc \<noteq> 0)
     \<and> list_all (\<lambda>g. droop g \<noteq> 0) (generators G)
     \<and> sum_list (map inertia (generators G)) \<noteq> 0 \<and> nominal_freq G \<noteq> 0"

text \<open>The parameters that a run reads and never writes.\<close>

definition same_setup :: "Grid \<Rightarrow> Grid \<Rightarrow> bool" where
  "same_setup G G' \<longleftrightarrow>
     map p_max (generators G') = map p_max (generators G)
     \<and> map droop (generators G') = map droop (generators G)
     \<and> map inertia (generators G') = map inertia (generators G)
     \<and> map response_rate (generators G') = map response_rate (generators G)
     \<and> load_profile G' = load_profile G \<and> nominal_freq G' = nominal_freq G
     \<and> grid_dt G' = grid_dt G \<and> grid_damping G' = grid_damping G"

text \<open>
  \<open>G'\<close> is \<open>G\<close> with \<open>n\<close> values appended to the frequency sequence and to the history
  of every unit.
\<close>

definition extends_by :: "nat \<Rightarrow> Grid \<Rightarrow> Grid \<Rightarrow> bool" where
  "extends_by n G G' \<longleftrightarrow>
     (\<exists>fs. frequency G' = frequency G @ fs \<and> length fs = n)
     \<and> list_all2 (\<lambda>g g'. \<exists>ys. p_output g' = p_output g @ ys \<and> length ys = n)
          (generators G) (generators G')"

subsection \<open>The example of the script\<close>

text \<open>
  The three units of the \<open>__main__\<close> block, and a load profile of two samples of
  60 MW for evaluating runs.
\<close>

definition gen1 :: Generator where
  "gen1 = Generator_init ''Coal'' 50 5 1 (1/20) (1/5)"

definition gen2 :: Generator where
  "gen2 = Generator_init ''Gas'' 30 3 1 (1/20) (3/10)"

definition gen3 :: Generator where
  "gen3 = Generator_init ''Hydro'' 20 2 (1/2) (1/20) (2/5)"

definition flat_load :: LoadProfile where
  "flat_load = \<lparr>base_load = 60, peak_load = 60, hours = 1/5, dt = 1/10, noise_std = 0,
                 time = [0, 1/10], profile = [60, 60]\<rparr>"

section \<open>The control law of one unit\<close>




lemma after_dispatch_params:
  "p_max (after_dispatch g c) = p_max g \<and> droop (after_dispatch g c) = droop g
   \<and> response_rate (after_dispatch g c) = response_rate g
   \<and> inertia (after_dispatch g c) = inertia g \<and> name (after_dispatch g c) = name g
   \<and> damping (after_dispatch g c) = damping g"
  by (simp add: after_dispatch_def dispatch_def Let_def)

lemma after_dispatches_snoc:
  "after_dispatches g (calls @ [c]) = after_dispatch (after_dispatches g calls) c"
  by (simp add: after_dispatches_def)

lemma after_dispatches_params:
  "p_max (after_dispatches g calls) = p_max g \<and> droop (after_dispatches g calls) = droop g
   \<and> response_rate (after_dispatches g calls) = response_rate g"
  by (induction calls rule: rev_induct)
     (simp_all add: after_dispatches_snoc after_dispatch_params, simp add: after_dispatches_def)






lemma after_dispatches_length:
  "droop g \<noteq> 0 \<Longrightarrow> length (p_output (after_dispatches g calls)) = length (p_output g) + length calls"
  by (induction calls rule: rev_induct)
     (simp_all add: after_dispatches_snoc, simp add: after_dispatches_def,
      simp add: after_dispatch_def dispatch_def Let_def after_dispatches_params)








section \<open>The simulation loop\<close>

lemma dispatch_after:
  "dispatch g fd ds =
     (if droop g = 0 then Inl ZeroDivisionError
      else Inr (after_dispatch g (fd, ds), current_output (after_dispatch g (fd, ds))))"
  by (simp add: after_dispatch_def dispatch_def Let_def)

lemma dispatch_sum_char:
  assumes "\<forall>i < length gens. n + i < length shares \<and> shares ! (n + i) = sh (gens ! i)"
  shows "dispatch_sum fd shares (enumerate n gens) acc =
           (if \<exists>g \<in> set gens. droop g = 0 then Inl ZeroDivisionError
            else Inr (map (\<lambda>g. after_dispatch g (fd, sh g)) gens,
                      acc + sum_list (map (\<lambda>g. current_output (after_dispatch g (fd, sh g))) gens)))"
  using assms
proof (induction gens arbitrary: n acc)
  case Nil
  show ?case by simp
next
  case (Cons g gens)
  from Cons.prems have h0: "n < length shares" "shares ! n = sh g" by auto
  have "\<forall>i < length gens. Suc n + i < length shares \<and> shares ! (Suc n + i) = sh (gens ! i)"
  proof (intro allI impI)
    fix i assume "i < length gens"
    then have "Suc i < length (g # gens)" by simp
    with Cons.prems have "n + Suc i < length shares \<and> shares ! (n + Suc i) = sh ((g # gens) ! Suc i)"
      by blast
    then show "Suc n + i < length shares \<and> shares ! (Suc n + i) = sh (gens ! i)" by simp
  qed
  from Cons.IH [OF this] h0 show ?case
    by (simp add: dispatch_after add.assoc)
qed

lemma dispatch_sum_shares:
  "dispatch_sum fd (map sh gens) (enumerate 0 gens) 0 =
     (if \<exists>g \<in> set gens. droop g = 0 then Inl ZeroDivisionError
      else Inr (map (\<lambda>g. after_dispatch g (fd, sh g)) gens,
                sum_list (map (\<lambda>g. current_output (after_dispatch g (fd, sh g))) gens)))"
  using dispatch_sum_char [of gens 0 "map sh gens" sh fd 0] by simp

lemma step_char:
  "step G tc D =
     (if frequency G = [] then Inl IndexError
      else if generators G \<noteq> [] \<and> tc = 0 then Inl ZeroDivisionError
      else if \<exists>g \<in> set (generators G). droop g = 0 then Inl ZeroDivisionError
      else if 2 * sum_list (map inertia (generators G)) * nominal_freq G = 0 then Inl NonFinite
      else Inr (G\<lparr>generators :=
                    map (\<lambda>g. after_dispatch g (last (frequency G) - nominal_freq G,
                                                 D * (p_max g / tc))) (generators G),
                  frequency := frequency G @
                    [last (frequency G)
                     + (sum_list (map (\<lambda>g. current_output
                             (after_dispatch g (last (frequency G) - nominal_freq G,
                                                D * (p_max g / tc)))) (generators G))
                        - D - grid_damping G * (last (frequency G) - nominal_freq G))
                       / (2 * sum_list (map inertia (generators G)) * nominal_freq G)
                       * grid_dt G]\<rparr>))"
proof -
  have i: "inertia \<circ> (\<lambda>g. after_dispatch g (c g)) = inertia" for c
    by (rule ext) (simp add: after_dispatch_params)
  show ?thesis
    unfolding step_def Let_def dispatch_sum_shares
    by (simp add: i del: mult_eq_0_iff)
qed

lemma same_setup_refl: "same_setup G G"
  by (simp add: same_setup_def)

lemma same_setup_trans: "same_setup G G' \<Longrightarrow> same_setup G' G'' \<Longrightarrow> same_setup G G''"
  by (simp add: same_setup_def)

lemma same_setup_runnable:
  "same_setup G G' \<Longrightarrow> frequency G' \<noteq> [] \<Longrightarrow> runnable G tc \<Longrightarrow> runnable G' tc"
proof -
  assume s: "same_setup G G'" and f: "frequency G' \<noteq> []" and r: "runnable G tc"
  from s have d: "map droop (generators G') = map droop (generators G)"
    by (simp add: same_setup_def)
  then have "length (generators G') = length (generators G)"
    by (rule map_eq_imp_length_eq)
  then have e: "generators G' = [] \<longleftrightarrow> generators G = []" by auto
  have l: "list_all (\<lambda>g. droop g \<noteq> 0) gs \<longleftrightarrow> list_all (\<lambda>x. x \<noteq> 0) (map droop gs)" for gs
    by (simp add: list_all_iff)
  have "list_all (\<lambda>g. droop g \<noteq> 0) (generators G')
                = list_all (\<lambda>g. droop g \<noteq> 0) (generators G)"
    unfolding l d ..
  with s f r e show ?thesis by (simp add: runnable_def same_setup_def)
qed

lemma extends_by_0: "extends_by 0 G G"
  by (simp add: extends_by_def list_all2_same)

lemma extends_by_trans:
  assumes "extends_by m G G'" "extends_by n G' G''"
  shows "extends_by (m + n) G G''"
proof -
  from assms obtain fs fs' where
    "frequency G' = frequency G @ fs" "length fs = m"
    "frequency G'' = frequency G' @ fs'" "length fs' = n"
    unfolding extends_by_def by blast
  then have f: "frequency G'' = frequency G @ (fs @ fs') \<and> length (fs @ fs') = m + n"
    by simp
  have "list_all2 (\<lambda>g g'. \<exists>ys. p_output g' = p_output g @ ys \<and> length ys = m + n)
          (generators G) (generators G'')"
  proof (rule list_all2_trans)
    show "list_all2 (\<lambda>g g'. \<exists>ys. p_output g' = p_output g @ ys \<and> length ys = m)
            (generators G) (generators G')"
      using assms(1) by (simp add: extends_by_def)
    show "list_all2 (\<lambda>g g'. \<exists>ys. p_output g' = p_output g @ ys \<and> length ys = n)
            (generators G') (generators G'')"
      using assms(2) by (simp add: extends_by_def)
  next
    fix a b c :: Generator
    assume "\<exists>ys. p_output b = p_output a @ ys \<and> length ys = m"
       and "\<exists>ys. p_output c = p_output b @ ys \<and> length ys = n"
    then obtain ys zs where "p_output b = p_output a @ ys" "length ys = m"
        "p_output c = p_output b @ zs" "length zs = n"
      by blast
    then have "p_output c = p_output a @ (ys @ zs) \<and> length (ys @ zs) = m + n" by simp
    then show "\<exists>ys. p_output c = p_output a @ ys \<and> length ys = m + n" by blast
  qed
  with f show ?thesis unfolding extends_by_def by blast
qed

lemma after_dispatch_history:
  "droop g \<noteq> 0 \<Longrightarrow>
     p_output (after_dispatch g c) = p_output g @ [current_output (after_dispatch g c)]"
  by (simp add: after_dispatch_def dispatch_def Let_def)

lemma step_runnable:
  assumes "runnable G tc"
  shows "\<exists>G'. step G tc D = Inr G' \<and> same_setup G G' \<and> extends_by 1 G G'"
proof -
  have "list_all2 (\<lambda>g g'. \<exists>ys. p_output g' = p_output g @ ys \<and> length ys = 1)
          gs (map (\<lambda>g. after_dispatch g (c g)) gs)"
    if "list_all (\<lambda>g. droop g \<noteq> 0) gs" for gs c
    using that by (simp add: list_all2_map2 list_all2_same list_all_iff after_dispatch_history)
  with assms show ?thesis
    unfolding step_char
    by (simp add: runnable_def same_setup_def extends_by_def after_dispatch_params comp_def
          list_all_iff)
qed

lemma run_loop_runnable:
  assumes "runnable G tc"
  shows "\<exists>R. run_loop G tc ds = Inr R \<and> runnable R tc \<and> same_setup G R
            \<and> extends_by (length ds) G R"
  using assms
proof (induction ds arbitrary: G)
  case Nil
  then show ?case by (simp add: same_setup_refl extends_by_0)
next
  case (Cons D ds)
  from step_runnable [OF Cons.prems, of D] obtain G' where
    s: "step G tc D = Inr G'" "same_setup G G'" "extends_by 1 G G'"
    by blast
  from s(3) have "frequency G' \<noteq> []" by (auto simp add: extends_by_def)
  with s(2) Cons.prems have r: "runnable G' tc" by (intro same_setup_runnable [of G G'])
  from Cons.IH [OF r] obtain R where
    R: "run_loop G' tc ds = Inr R" "runnable R tc" "same_setup G' R"
       "extends_by (length ds) G' R"
    by blast
  from extends_by_trans [OF s(3) R(4)] have "extends_by (length (D # ds)) G R" by simp
  with s R same_setup_trans [OF s(2) R(3)] show ?case by simp
qed

lemma extends_by_lengths:
  assumes "extends_by n G R"
  shows "length (frequency R) = length (frequency G) + n"
    and "length (generators R) = length (generators G)"
    and "take (length (frequency G)) (frequency R) = frequency G"
    and "\<forall>i < length (generators G).
           length (p_output (generators R ! i)) = length (p_output (generators G ! i)) + n
         \<and> take (length (p_output (generators G ! i))) (p_output (generators R ! i))
             = p_output (generators G ! i)"
  using assms by (auto simp add: extends_by_def list_all2_conv_all_nth)

text \<open>
  C5. For a valid configuration (at least one unit, every unit with \<open>p_max > 0\<close>,
  \<open>inertia > 0\<close>, \<open>droop \<noteq> 0\<close> and an empty history, \<open>nominal_freq > 0\<close>) and a load
  profile of \<open>N\<close> samples, \<open>run_simulation\<close> on the freshly constructed grid returns, with
  \<open>N + 1\<close> frequency values, the first of them \<open>nominal_freq\<close>, and \<open>N\<close> history entries
  for every unit: one loop iteration per sample and no early exit.
\<close>

theorem run_lengths:
  assumes "gens \<noteq> []"
    and "\<forall>g \<in> set gens. 0 < p_max g \<and> 0 < inertia g \<and> droop g \<noteq> 0 \<and> p_output g = []"
    and "0 < nf"
  shows "\<exists>R. run_simulation (Grid_init gens lp nf step_size dmp) = Inr R
           \<and> length (frequency R) = length (profile lp) + 1
           \<and> hd (frequency R) = nf
           \<and> length (generators R) = length gens
           \<and> (\<forall>g \<in> set (generators R). length (p_output g) = length (profile lp))"
proof -
  let ?G = "Grid_init gens lp nf step_size dmp"
  let ?tc = "sum_list (map p_max (generators ?G))"
  have gG: "generators ?G = gens" "frequency ?G = [nf]" "load_profile ?G = lp"
    by (simp_all add: Grid_init_def)
  have "0 < sum_list (map p_max gens)" "0 < sum_list (map inertia gens)"
    using assms(1,2) by (induction gens rule: list_nonempty_induct) (simp_all add: add_pos_pos)
  with assms have "runnable ?G ?tc"
    by (simp add: runnable_def Grid_init_def list_all_iff)
  from run_loop_runnable [OF this, of "profile lp"] obtain R where
    R: "run_loop ?G ?tc (profile lp) = Inr R" "extends_by (length (profile lp)) ?G R"
    by blast
  note l = extends_by_lengths [OF R(2), unfolded gG]
  from l(3) have "hd (frequency R) = nf"
    by (cases "frequency R") simp_all
  moreover have "\<forall>g \<in> set (generators R). length (p_output g) = length (profile lp)"
  proof
    fix g assume "g \<in> set (generators R)"
    then obtain i where i: "i < length gens" "g = generators R ! i"
      using l(2) by (auto simp add: in_set_conv_nth)
    then have "gens ! i \<in> set gens" by simp
    with assms(2) have "p_output (gens ! i) = []" by blast
    with l(4) i show "length (p_output g) = length (profile lp)" by simp
  qed
  ultimately show ?thesis using R(1) l(1,2) by (simp add: run_simulation_def gG)
qed

lemma run_loop_append:
  "run_loop G tc (xs @ ys) =
     (case run_loop G tc xs of Inl e \<Rightarrow> Inl e | Inr G' \<Rightarrow> run_loop G' tc ys)"
  by (induction xs arbitrary: G) (simp_all split: sum.splits)

lemma valid_runnable:
  assumes "gens \<noteq> []"
    and "\<forall>g \<in> set gens. 0 < p_max g \<and> 0 < inertia g \<and> droop g \<noteq> 0"
    and "0 < nf"
  shows "runnable (Grid_init gens lp nf step_size dmp) (sum_list (map p_max gens))"
proof -
  have "0 < sum_list (map p_max gens)" "0 < sum_list (map inertia gens)"
    using assms(1,2) by (induction gens rule: list_nonempty_induct) (simp_all add: add_pos_pos)
  with assms show ?thesis
    by (simp add: runnable_def Grid_init_def list_all_iff)
qed

text \<open>
  C9. \<open>run_simulation\<close> resets nothing: a second call on the same grid, with a load
  profile of \<open>N\<close> samples, appends to what the first call left, so that the frequency
  sequence has \<open>2N + 1\<close> values and every history \<open>2N\<close>, the results of the first run
  being their first \<open>N + 1\<close> and \<open>N\<close> values.
\<close>

theorem rerun_appends:
  assumes "gens \<noteq> []"
    and "\<forall>g \<in> set gens. 0 < p_max g \<and> 0 < inertia g \<and> droop g \<noteq> 0 \<and> p_output g = []"
    and "0 < nf"
  shows "\<exists>R1 R2. run_simulation (Grid_init gens lp nf step_size dmp) = Inr R1
           \<and> run_simulation R1 = Inr R2
           \<and> length (frequency R2) = 2 * length (profile lp) + 1
           \<and> take (length (profile lp) + 1) (frequency R2) = frequency R1
           \<and> (\<forall>g \<in> set (generators R2). length (p_output g) = 2 * length (profile lp))
           \<and> map (\<lambda>g. take (length (profile lp)) (p_output g)) (generators R2)
               = map p_output (generators R1)"
proof -
  let ?G = "Grid_init gens lp nf step_size dmp"
  let ?tc = "sum_list (map p_max gens)"
  let ?N = "length (profile lp)"
  have gG: "generators ?G = gens" "frequency ?G = [nf]" "load_profile ?G = lp"
    by (simp_all add: Grid_init_def)
  have "runnable ?G ?tc" using assms by (intro valid_runnable) simp_all
  from run_loop_runnable [OF this, of "profile lp"] obtain R1 where
    R1: "run_loop ?G ?tc (profile lp) = Inr R1" "runnable R1 ?tc" "same_setup ?G R1"
        "extends_by ?N ?G R1"
    by blast
  from R1(3) have s: "load_profile R1 = lp" "sum_list (map p_max (generators R1)) = ?tc"
    by (simp_all add: same_setup_def gG)
  from run_loop_runnable [OF R1(2), of "profile lp"] obtain R2 where
    R2: "run_loop R1 ?tc (profile lp) = Inr R2" "extends_by ?N R1 R2"
    by blast
  note l1 = extends_by_lengths [OF R1(4), unfolded gG]
  note l2 = extends_by_lengths [OF R2(2)]
  have h1: "length (p_output (generators R1 ! i)) = ?N" if "i < length gens" for i
  proof -
    from that have "gens ! i \<in> set gens" by simp
    with assms(2) have "p_output (gens ! i) = []" by blast
    with l1(4) that show ?thesis by simp
  qed
  have "\<forall>g \<in> set (generators R2). length (p_output g) = 2 * ?N"
  proof
    fix g assume "g \<in> set (generators R2)"
    then obtain i where i: "i < length gens" "g = generators R2 ! i"
      using l1(2) l2(2) by (auto simp add: in_set_conv_nth)
    with l2(4) l1(2) h1 [OF i(1)] show "length (p_output g) = 2 * ?N" by simp
  qed
  moreover have "map (\<lambda>g. take ?N (p_output g)) (generators R2) = map p_output (generators R1)"
  proof (rule nth_equalityI)
    show "length (map (\<lambda>g. take ?N (p_output g)) (generators R2))
            = length (map p_output (generators R1))"
      using l2(2) by simp
  next
    fix i assume "i < length (map (\<lambda>g. take ?N (p_output g)) (generators R2))"
    then have i: "i < length gens" "i < length (generators R1)" "i < length (generators R2)"
      using l1(2) l2(2) by simp_all
    from l2(4) i(2) have "take (length (p_output (generators R1 ! i))) (p_output (generators R2 ! i))
             = p_output (generators R1 ! i)" by blast
    with h1 [OF i(1)] i
    show "map (\<lambda>g. take ?N (p_output g)) (generators R2) ! i = map p_output (generators R1) ! i"
      by simp
  qed
  moreover have "take (?N + 1) (frequency R2) = frequency R1"
    using l1(1) l2(3) by simp
  ultimately show ?thesis
    using R1(1) R2(1) l1(1) l2(1) s by (simp add: run_simulation_def gG)
qed

text \<open>
  C4. Every iteration of the loop of \<open>run_simulation\<close>, in the state \<open>G1\<close> that the samples
  \<open>ds\<close> before it have left and for the demand \<open>D\<close>, dispatches each unit with the
  frequency deviation \<open>f_prev - nominal_freq\<close> and the share
  \<open>D * (p_max / total_capacity)\<close>, \<open>total_capacity\<close> being the sum of \<open>p_max\<close> over the
  units, and appends
  \<open>f_prev + dt * (gen_power - D - damping * (f_prev - nominal_freq)) / (2 * H_total * nominal_freq)\<close>
  to the frequency sequence, where \<open>gen_power\<close> is the sum of the dispatch results and
  \<open>H_total\<close> the sum of the inertia constants.
\<close>

theorem swing_step:
  assumes prof: "profile (load_profile G) = ds @ D # rest"
    and pre: "run_loop G (sum_list (map p_max (generators G))) ds = Inr G1"
    and "frequency G \<noteq> []"
    and "\<forall>g \<in> set (generators G). droop g \<noteq> 0"
    and "sum_list (map p_max (generators G)) \<noteq> 0"
    and "sum_list (map inertia (generators G)) \<noteq> 0"
    and "nominal_freq G \<noteq> 0"
  shows "\<exists>G2. step G1 (sum_list (map p_max (generators G))) D = Inr G2
           \<and> run_simulation G = run_loop G2 (sum_list (map p_max (generators G))) rest
           \<and> list_all2
               (\<lambda>g g'. dispatch g (last (frequency G1) - nominal_freq G)
                                   (D * (p_max g / sum_list (map p_max (generators G1))))
                         = Inr (g', current_output g'))
               (generators G1) (generators G2)
           \<and> frequency G2 = frequency G1 @
               [last (frequency G1)
                + grid_dt G
                  * (sum_list (map current_output (generators G2)) - D
                     - grid_damping G * (last (frequency G1) - nominal_freq G))
                  / (2 * sum_list (map inertia (generators G1)) * nominal_freq G)]"
proof -
  let ?tc = "sum_list (map p_max (generators G))"
  have "runnable G ?tc" using assms(3-7) by (simp add: runnable_def list_all_iff)
  from run_loop_runnable [OF this, of ds] pre
  have r: "runnable G1 ?tc" and s: "same_setup G G1" by simp_all
  from s have e: "sum_list (map p_max (generators G1)) = ?tc"
      "sum_list (map inertia (generators G1)) = sum_list (map inertia (generators G))"
      "nominal_freq G1 = nominal_freq G" "grid_dt G1 = grid_dt G"
      "grid_damping G1 = grid_damping G"
    by (simp_all add: same_setup_def)
  let ?upd = "\<lambda>g. after_dispatch g (last (frequency G1) - nominal_freq G, D * (p_max g / ?tc))"
  let ?G2 = "G1\<lparr>generators := map ?upd (generators G1),
                 frequency := frequency G1 @
                    [last (frequency G1)
                     + (sum_list (map (\<lambda>g. current_output (?upd g)) (generators G1))
                        - D - grid_damping G * (last (frequency G1) - nominal_freq G))
                       / (2 * sum_list (map inertia (generators G)) * nominal_freq G)
                       * grid_dt G]\<rparr>"
  have st: "step G1 ?tc D = Inr ?G2"
    using r unfolding step_char by (simp add: runnable_def e list_all_iff)
  have "run_simulation G = run_loop ?G2 ?tc rest"
    by (simp add: run_simulation_def prof run_loop_append pre st)
  moreover have "list_all2
               (\<lambda>g g'. dispatch g (last (frequency G1) - nominal_freq G)
                                   (D * (p_max g / sum_list (map p_max (generators G1))))
                         = Inr (g', current_output g'))
               (generators G1) (generators ?G2)"
    using r by (simp add: e list_all2_map2 list_all2_same dispatch_after runnable_def list_all_iff)
  moreover have "sum_list (map current_output (generators ?G2))
                   = sum_list (map (\<lambda>g. current_output (?upd g)) (generators G1))"
    by (simp add: comp_def)
  ultimately show ?thesis
    using st by (simp add: e del: mult_eq_0_iff)
qed

lemma units_valid:
  "\<forall>g \<in> set [gen1, gen2, gen3]. 0 < p_max g \<and> 0 < inertia g \<and> droop g \<noteq> 0 \<and> p_output g = []"
  by (simp add: gen1_def gen2_def gen3_def Generator_init_def)

theorem run_lengths_witness:
  "[gen1, gen2, gen3] \<noteq> []
   \<and> list_all (\<lambda>g. 0 < p_max g \<and> 0 < inertia g \<and> droop g \<noteq> 0 \<and> p_output g = [])
         [gen1, gen2, gen3]
   \<and> (\<exists>R. run_simulation (Grid_init [gen1, gen2, gen3] flat_load 50 (1/10) 1) = Inr R
          \<and> length (frequency R) = 3 \<and> hd (frequency R) = 50
          \<and> (\<forall>g \<in> set (generators R). length (p_output g) = 2))"
proof -
  have n: "[gen1, gen2, gen3] \<noteq> []" and p: "(0::real) < 50" by simp_all
  have l: "length (profile flat_load) = 2" by (simp add: flat_load_def)
  from run_lengths [OF n units_valid p, of flat_load "1/10" 1]
  show ?thesis unfolding l using units_valid by (auto simp add: list_all_iff)
qed

theorem rerun_appends_witness:
  "[gen1, gen2, gen3] \<noteq> []
   \<and> list_all (\<lambda>g. 0 < p_max g \<and> 0 < inertia g \<and> droop g \<noteq> 0 \<and> p_output g = [])
         [gen1, gen2, gen3]
   \<and> (\<exists>R1 R2. run_simulation (Grid_init [gen1, gen2, gen3] flat_load 50 (1/10) 1) = Inr R1
          \<and> run_simulation R1 = Inr R2
          \<and> length (frequency R2) = 5
          \<and> (\<forall>g \<in> set (generators R2). length (p_output g) = 4))"
proof -
  have n: "[gen1, gen2, gen3] \<noteq> []" and p: "(0::real) < 50" by simp_all
  have l: "length (profile flat_load) = 2" by (simp add: flat_load_def)
  from rerun_appends [OF n units_valid p, of flat_load "1/10" 1]
  show ?thesis unfolding l using units_valid by (auto simp add: list_all_iff)
qed

theorem swing_step_witness:
  "\<exists>G2. step (Grid_init [gen1, gen2, gen3] flat_load 50 (1/10) 1) 100 60 = Inr G2
        \<and> map current_output (generators G2) = [6, 27/5, 24/5]
        \<and> frequency G2 = [50, 50 - 219/50000]"
proof -
  let ?G = "Grid_init [gen1, gen2, gen3] flat_load 50 (1/10) 1"
  have tc: "sum_list (map p_max (generators ?G)) = 100"
    by (simp add: Grid_init_def gen1_def gen2_def gen3_def Generator_init_def)
  have h: "profile (load_profile ?G) = [] @ 60 # [60]"
      "run_loop ?G (sum_list (map p_max (generators ?G))) [] = Inr ?G"
      "frequency ?G \<noteq> []"
      "\<forall>g \<in> set (generators ?G). droop g \<noteq> 0"
      "sum_list (map p_max (generators ?G)) \<noteq> 0"
      "sum_list (map inertia (generators ?G)) \<noteq> 0"
      "nominal_freq ?G \<noteq> 0"
    by (simp_all add: Grid_init_def flat_load_def gen1_def gen2_def gen3_def Generator_init_def)
  from swing_step [OF h] obtain G2 where
    G2: "step ?G (sum_list (map p_max (generators ?G))) 60 = Inr G2"
        "list_all2
               (\<lambda>g g'. dispatch g (last (frequency ?G) - nominal_freq ?G)
                                   (60 * (p_max g / sum_list (map p_max (generators ?G))))
                         = Inr (g', current_output g'))
               (generators ?G) (generators G2)"
        "frequency G2 = frequency ?G @
               [last (frequency ?G)
                + grid_dt ?G
                  * (sum_list (map current_output (generators G2)) - 60
                     - grid_damping ?G * (last (frequency ?G) - nominal_freq ?G))
                  / (2 * sum_list (map inertia (generators ?G)) * nominal_freq ?G)]"
    by blast
  from G2(2) have c: "map current_output (generators G2) = [6, 27/5, 24/5]"
    unfolding tc
    by (auto simp add: Grid_init_def gen1_def gen2_def gen3_def Generator_init_def
          list_all2_Cons1 dispatch_def clip_def Let_def)
  from G2(3) have f: "frequency G2 = [50, 50 - 219/50000]"
    unfolding c by (simp add: Grid_init_def gen1_def gen2_def gen3_def Generator_init_def)
  from G2(1) have "step ?G 100 60 = Inr G2" unfolding tc .
  with c f show ?thesis by (intro exI [of _ G2] conjI)
qed

section \<open>Order of the units within a step\<close>








section \<open>The damping parameter of a unit\<close>

lemma after_dispatch_damping:
  "after_dispatch (g\<lparr>damping := d\<rparr>) c = (after_dispatch g c)\<lparr>damping := d\<rparr>"
  by (simp add: after_dispatch_def dispatch_def Let_def)

lemma step_damping:
  "step (G\<lparr>generators := map (\<lambda>g. g\<lparr>damping := 0\<rparr>) (generators G)\<rparr>) tc D
     = map_sum id (\<lambda>R. R\<lparr>generators := map (\<lambda>g. g\<lparr>damping := 0\<rparr>) (generators R)\<rparr>)
         (step G tc D)"
  unfolding step_char
  by (simp add: comp_def after_dispatch_damping del: mult_eq_0_iff)

lemma run_loop_damping:
  "run_loop (G\<lparr>generators := map (\<lambda>g. g\<lparr>damping := 0\<rparr>) (generators G)\<rparr>) tc ds
     = map_sum id (\<lambda>R. R\<lparr>generators := map (\<lambda>g. g\<lparr>damping := 0\<rparr>) (generators R)\<rparr>)
         (run_loop G tc ds)"
proof (induction ds arbitrary: G)
  case Nil
  show ?case by simp
next
  case (Cons D ds)
  show ?case
  proof (cases "step G tc D")
    case (Inl e)
    then show ?thesis by (simp add: step_damping)
  next
    case (Inr G')
    then show ?thesis by (simp add: step_damping Cons.IH)
  qed
qed

lemma run_simulation_damping:
  "run_simulation (G\<lparr>generators := map (\<lambda>g. g\<lparr>damping := 0\<rparr>) (generators G)\<rparr>)
     = map_sum id (\<lambda>R. R\<lparr>generators := map (\<lambda>g. g\<lparr>damping := 0\<rparr>) (generators R)\<rparr>)
         (run_simulation G)"
  by (simp add: run_simulation_def run_loop_damping comp_def)

lemma observed_damping:
  "map_sum id (\<lambda>R. (frequency R, map p_output (generators R)))
      (map_sum id (\<lambda>R. R\<lparr>generators := map (\<lambda>g. g\<lparr>damping := 0\<rparr>) (generators R)\<rparr>) r)
     = map_sum id (\<lambda>R. (frequency R, map p_output (generators R))) r"
  by (cases r) (simp_all add: comp_def)

text \<open>
  C10. The \<open>damping\<close> parameter of a unit has no effect: replacing the damping values
  of the units of a grid by any values \<open>ds\<close>, everything else being equal, gives a run
  with the same outcome, that is the same exception or the same frequency sequence and
  the same history for every unit.
\<close>

theorem unit_damping_unused:
  assumes "length ds = length (generators G)"
  shows "map_sum id (\<lambda>R. (frequency R, map p_output (generators R)))
           (run_simulation (G\<lparr>generators := map2 (\<lambda>g d. g\<lparr>damping := d\<rparr>) (generators G) ds\<rparr>))
         = map_sum id (\<lambda>R. (frequency R, map p_output (generators R))) (run_simulation G)"
proof -
  let ?G' = "G\<lparr>generators := map2 (\<lambda>g d. g\<lparr>damping := d\<rparr>) (generators G) ds\<rparr>"
  let ?E = "\<lambda>R. R\<lparr>generators := map (\<lambda>g. g\<lparr>damping := 0\<rparr>) (generators R)\<rparr>"
  let ?obs = "\<lambda>R. (frequency R, map p_output (generators R))"
  have "map (\<lambda>g. g\<lparr>damping := 0\<rparr>) (map2 (\<lambda>g d. g\<lparr>damping := d\<rparr>) gs ds)
          = map (\<lambda>g. g\<lparr>damping := 0\<rparr>) gs" if "length ds = length gs" for gs :: "Generator list"
    using that by (induction gs ds rule: list_induct2') simp_all
  with assms have e: "?E ?G' = ?E G" by simp
  have "map_sum id ?obs (run_simulation ?G') = map_sum id ?obs (map_sum id ?E (run_simulation ?G'))"
    by (simp only: observed_damping)
  also have "\<dots> = map_sum id ?obs (run_simulation (?E ?G'))"
    by (simp only: run_simulation_damping)
  also have "\<dots> = map_sum id ?obs (run_simulation (?E G))"
    by (simp only: e)
  also have "\<dots> = map_sum id ?obs (map_sum id ?E (run_simulation G))"
    by (simp only: run_simulation_damping)
  also have "\<dots> = map_sum id ?obs (run_simulation G)"
    by (simp only: observed_damping)
  finally show ?thesis .
qed

theorem unit_damping_unused_witness:
  "length [7, 8, 9 :: real] = length (generators (Grid_init [gen1, gen2, gen3] flat_load 50 (1/10) 1))
   \<and> map_sum id (\<lambda>R. (frequency R, map p_output (generators R)))
           (run_simulation (Grid_init [gen1\<lparr>damping := 7\<rparr>, gen2\<lparr>damping := 8\<rparr>, gen3\<lparr>damping := 9\<rparr>]
               flat_load 50 (1/10) 1))
         = map_sum id (\<lambda>R. (frequency R, map p_output (generators R)))
             (run_simulation (Grid_init [gen1, gen2, gen3] flat_load 50 (1/10) 1))"
proof -
  let ?G = "Grid_init [gen1, gen2, gen3] flat_load 50 (1/10) 1"
  have l: "length [7, 8, 9 :: real] = length (generators ?G)"
    by (simp add: Grid_init_def)
  have g: "?G\<lparr>generators := map2 (\<lambda>g d. g\<lparr>damping := d\<rparr>) (generators ?G) [7, 8, 9]\<rparr>
            = Grid_init [gen1\<lparr>damping := 7\<rparr>, gen2\<lparr>damping := 8\<rparr>, gen3\<lparr>damping := 9\<rparr>]
               flat_load 50 (1/10) 1"
    by (simp add: Grid_init_def)
  from unit_damping_unused [OF l] l show ?thesis unfolding g by blast
qed

section \<open>Construction\<close>




section \<open>The load profile\<close>





end
